theory Spec2Isabelle
  imports Main "HOL-Library.Sublist"
begin

section \<open>Strings and character classes\<close>

text \<open>
  Python strings are modelled as \<^typ>\<open>string\<close>, read as ASCII text: on ASCII the
  Unicode classes used by \<^verbatim>\<open>re\<close> (\<^verbatim>\<open>\w\<close>, \<^verbatim>\<open>\d\<close>), by \<^verbatim>\<open>str.strip\<close> and by
  \<^verbatim>\<open>str.upper\<close>/\<^verbatim>\<open>str.lower\<close> are the classes below. A character outside ASCII
  belongs to no class and is left alone by the case conversions.
\<close>

definition is_digit :: "char \<Rightarrow> bool" where
  "is_digit c = (c \<in> set ''0123456789'')"

definition is_upper :: "char \<Rightarrow> bool" where
  "is_upper c = (c \<in> set ''ABCDEFGHIJKLMNOPQRSTUVWXYZ'')"

definition is_lower :: "char \<Rightarrow> bool" where
  "is_lower c = (c \<in> set ''abcdefghijklmnopqrstuvwxyz'')"

definition is_alpha :: "char \<Rightarrow> bool" where
  "is_alpha c = (is_upper c \<or> is_lower c)"

text \<open>\<^verbatim>\<open>\w\<close>: letters, digits and the underscore.\<close>

definition is_word :: "char \<Rightarrow> bool" where
  "is_word c = (is_alpha c \<or> is_digit c \<or> c = CHR ''_'')"

text \<open>The characters \<^verbatim>\<open>str.strip()\<close> removes: tab, newline, vertical tab, form feed,
  carriage return, the four separators 0x1C..0x1F, and the space.\<close>

definition is_space :: "char \<Rightarrow> bool" where
  "is_space c = (c \<in> set [CHR 0x09, CHR 0x0A, CHR 0x0B, CHR 0x0C, CHR 0x0D,
                            CHR 0x1C, CHR 0x1D, CHR 0x1E, CHR 0x1F, CHR '' ''])"

definition to_upper :: "char \<Rightarrow> char" where
  "to_upper c = (case map_of (zip ''abcdefghijklmnopqrstuvwxyz'' ''ABCDEFGHIJKLMNOPQRSTUVWXYZ'') c of
                   Some u \<Rightarrow> u | None \<Rightarrow> c)"

definition to_lower :: "char \<Rightarrow> char" where
  "to_lower c = (case map_of (zip ''ABCDEFGHIJKLMNOPQRSTUVWXYZ'' ''abcdefghijklmnopqrstuvwxyz'') c of
                   Some l \<Rightarrow> l | None \<Rightarrow> c)"

definition upper :: "string \<Rightarrow> string" where
  "upper s = map to_upper s"

definition lower :: "string \<Rightarrow> string" where
  "lower s = map to_lower s"

text \<open>\<^verbatim>\<open>s.strip()\<close> and \<^verbatim>\<open>s.replace(" ", "")\<close>.\<close>

definition strip :: "string \<Rightarrow> string" where
  "strip s = rev (dropWhile is_space (rev (dropWhile is_space s)))"

definition remove_spaces :: "string \<Rightarrow> string" where
  "remove_spaces s = filter (\<lambda>c. c \<noteq> CHR '' '') s"

text \<open>\<^verbatim>\<open>a in b\<close> on strings: \<open>a\<close> occurs in \<open>b\<close> as a contiguous piece.\<close>

fun starts_with :: "string \<Rightarrow> string \<Rightarrow> bool" where
  "starts_with [] s = True"
| "starts_with (a # as) [] = False"
| "starts_with (a # as) (c # cs) = (a = c \<and> starts_with as cs)"

fun str_in :: "string \<Rightarrow> string \<Rightarrow> bool" where
  "str_in a [] = (a = [])"
| "str_in a (c # cs) = (starts_with a (c # cs) \<or> str_in a cs)"

section \<open>Regular expressions as backtracking matchers\<close>

text \<open>
  A matcher is run at one position of the subject: it is given the text from that
  position on and returns every way to match there, as pairs of the matched text and
  the text left over, in the order in which the backtracking engine of \<^verbatim>\<open>re\<close> tries
  them. The head of the list is the match \<^verbatim>\<open>re\<close> reports at that position.
\<close>

type_synonym matcher = "string \<Rightarrow> (string \<times> string) list"

text \<open>One character of a class.\<close>

definition chr :: "(char \<Rightarrow> bool) \<Rightarrow> matcher" where
  "chr P s = (case s of [] \<Rightarrow> [] | c # cs \<Rightarrow> if P c then [([c], cs)] else [])"

text \<open>\<^verbatim>\<open>[class]{n,}\<close>, greedy: the longest run first, then shorter ones, down to \<open>n\<close>
  characters. \<^verbatim>\<open>[class]+\<close> is \<open>rep_min 1\<close>.\<close>

fun rep_min :: "nat \<Rightarrow> (char \<Rightarrow> bool) \<Rightarrow> matcher" where
  "rep_min n P [] = (if n = 0 then [([], [])] else [])"
| "rep_min n P (c # cs) =
     (if P c then map (\<lambda>(a, r). (c # a, r)) (rep_min (n - 1) P cs) else [])
     @ (if n = 0 then [([], c # cs)] else [])"

text \<open>Concatenation, alternation (left branch first), the empty expression.\<close>

definition seq :: "matcher \<Rightarrow> matcher \<Rightarrow> matcher" where
  "seq m1 m2 s = concat (map (\<lambda>(a, r). map (\<lambda>(b, r'). (a @ b, r')) (m2 r)) (m1 s))"

definition alt :: "matcher \<Rightarrow> matcher \<Rightarrow> matcher" where
  "alt m1 m2 s = m1 s @ m2 s"

definition eps :: matcher where
  "eps s = [([], s)]"

text \<open>\<^verbatim>\<open>$\<close> (without MULTILINE): at the end of the subject, or just before a newline
  that is its last character.\<close>

definition dollar :: matcher where
  "dollar s = (if s = [] \<or> s = [CHR 0x0A] then [([], s)] else [])"

text \<open>\<^verbatim>\<open>re.search\<close>: the first position, from the left, at which the matcher succeeds,
  with the text before it, what the matcher reports there first, and the text after.
  The position after the last character is tried too.\<close>

fun search :: "(string \<Rightarrow> ('a \<times> string) list) \<Rightarrow> string \<Rightarrow> (string \<times> 'a \<times> string) option" where
  "search m [] = (case m [] of (a, r) # _ \<Rightarrow> Some ([], a, r) | [] \<Rightarrow> None)"
| "search m (c # cs) =
     (case m (c # cs) of
        (a, r) # _ \<Rightarrow> Some ([], a, r)
      | [] \<Rightarrow> map_option (\<lambda>(p, a, r). (c # p, a, r)) (search m cs))"

subsection \<open>What the matchers return\<close>

lemma chr_set: "(a, r) \<in> set (chr P s) \<longleftrightarrow> (\<exists>c. P c \<and> a = [c] \<and> s = c # r)"
  by (auto simp: chr_def split: list.splits)

lemma rep_min_set:
  "(a, r) \<in> set (rep_min n P s) \<longleftrightarrow> (s = a @ r \<and> n \<le> length a \<and> (\<forall>c\<in>set a. P c))"
proof (induction s arbitrary: n a)
  case Nil
  then show ?case by auto
next
  case (Cons c cs)
  show ?case
  proof (cases a)
    case Nil
    then show ?thesis by (auto simp: Cons.IH image_iff)
  next
    case a: (Cons x xs)
    have "(x # xs, r) \<in> (\<lambda>(a, r). (c # a, r)) ` set (rep_min (n - 1) P cs)
            \<longleftrightarrow> x = c \<and> (xs, r) \<in> set (rep_min (n - 1) P cs)"
      by force
    with a show ?thesis by (auto simp: Cons.IH)
  qed
qed

lemma seq_set:
  "(a, r) \<in> set (seq m1 m2 s) \<longleftrightarrow>
     (\<exists>a1 a2 r1. a = a1 @ a2 \<and> (a1, r1) \<in> set (m1 s) \<and> (a2, r) \<in> set (m2 r1))"
  by (force simp: seq_def)

lemma alt_set: "x \<in> set (alt m1 m2 s) \<longleftrightarrow> x \<in> set (m1 s) \<or> x \<in> set (m2 s)"
  by (simp add: alt_def)

lemma eps_set: "(a, r) \<in> set (eps s) \<longleftrightarrow> a = [] \<and> r = s"
  by (auto simp: eps_def)

lemma dollar_set: "(a, r) \<in> set (dollar s) \<longleftrightarrow> a = [] \<and> r = s \<and> (s = [] \<or> s = [CHR 0x0A])"
  by (auto simp: dollar_def)

lemma search_None: "search m s = None \<longleftrightarrow> (\<forall>p t. s = p @ t \<longrightarrow> m t = [])"
proof (induction s)
  case Nil
  then show ?case by (auto split: list.splits)
next
  case (Cons c cs)
  show ?case
  proof (cases "m (c # cs)")
    case Nil
    then show ?thesis 
      by (auto simp: Cons.IH Cons_eq_append_conv)
  next
    case (Cons x xs)
    then have "\<exists>p t. c # cs = p @ t \<and> m t \<noteq> []"
      by (intro exI[of _ "[]"] exI[of _ "c # cs"]) simp
    with Cons show ?thesis by (auto split: prod.splits)
  qed
qed

lemma search_Some_sound:
  "search m s = Some (p, a, r) \<Longrightarrow>
     \<exists>t. s = p @ t \<and> m t \<noteq> [] \<and> hd (m t) = (a, r) \<and>
          (\<forall>p' t'. s = p' @ t' \<and> length p' < length p \<longrightarrow> m t' = [])"
proof (induction s arbitrary: p)
  case Nil
  then show ?case by (auto split: list.splits)
next
  case (Cons c cs)
  show ?case
  proof (cases "m (c # cs)")
    case mnil: Nil
    with Cons.prems obtain p0 where p: "p = c # p0" and s: "search m cs = Some (p0, a, r)"
      by auto
    from Cons.IH[OF s] obtain t where t: "cs = p0 @ t" "m t \<noteq> []" "hd (m t) = (a, r)"
      and least: "\<forall>p' t'. cs = p' @ t' \<and> length p' < length p0 \<longrightarrow> m t' = []"
      by blast
    have "\<forall>p' t'. c # cs = p' @ t' \<and> length p' < length p \<longrightarrow> m t' = []"
    proof (intro allI impI)
      fix p' t' assume h: "c # cs = p' @ t' \<and> length p' < length p"
      show "m t' = []"
      proof (cases p')
        case Nil
        with h mnil show ?thesis by simp
      next
        case (Cons x xs)
        with h p least show ?thesis by auto
      qed
    qed
    with t p show ?thesis by auto
  next
    case (Cons x xs)
    with Cons.prems show ?thesis by (auto split: prod.splits)
  qed
qed

lemma search_first:
  assumes "s = p @ t" "m t \<noteq> []"
    and "\<And>p' t'. s = p' @ t' \<Longrightarrow> length p' < length p \<Longrightarrow> m t' = []"
  shows "search m s = Some (p, fst (hd (m t)), snd (hd (m t)))"
  using assms
proof (induction s arbitrary: p)
  case Nil
  then show ?case by (auto split: list.splits)
next
  case (Cons c cs)
  show ?case
  proof (cases p)
    case Nil
    with Cons.prems show ?thesis by (auto split: list.splits)
  next
    case p: (Cons x p0)
    with Cons.prems have cs: "cs = p0 @ t" and x: "x = c" by auto
    have "m (c # cs) = []"
      using Cons.prems(3)[of "[]" "c # cs"] p by simp
    moreover have "search m cs = Some (p0, fst (hd (m t)), snd (hd (m t)))"
    proof (rule Cons.IH[OF cs Cons.prems(2)])
      fix p' t' assume "cs = p' @ t'" "length p' < length p0"
      then show "m t' = []" using Cons.prems(3)[of "c # p'" t'] p by simp
    qed
    ultimately show ?thesis using p x by simp
  qed
qed

section \<open>EmailProcessor\<close>

datatype error =
    IndexError
  | PdfError string
  | ErroProcessarPDF error
  | NenhumDado

datatype pyval = Str string | NotStr

text \<open>\<^verbatim>\<open>DOMINIOS_CONHECIDOS\<close>: a dict, iterated in the order of its definition.\<close>

definition DOMINIOS_CONHECIDOS :: "(string \<times> string list) list" where
  "DOMINIOS_CONHECIDOS =
    [(''gmail'', [''.com'', ''.pt'']),
     (''hotmail'', [''.com'', ''.pt'']),
     (''outlook'', [''.com'', ''.pt'']),
     (''sapo'', [''.pt'']),
     (''live'', [''.com'', ''.pt'']),
     (''yahoo'', [''.com'', ''.pt'']),
     (''icloud'', [''.com'']),
     (''mail'', [''.pt'']),
     (''iol'', [''.pt'']),
     (''clix'', [''.pt'']),
     (''netcabo'', [''.pt''])]"

record email_processor =
  common_domains :: "(string \<times> string list) list"
  corrections_log :: "(string \<times> string) list"

definition EmailProcessor_init :: email_processor where
  "EmailProcessor_init = \<lparr>common_domains = DOMINIOS_CONHECIDOS, corrections_log = []\<rparr>"

text \<open>The class \<^verbatim>\<open>[\w\.-]\<close> of the domain part.\<close>

definition is_domain_char :: "char \<Rightarrow> bool" where
  "is_domain_char c = (is_word c \<or> c = CHR ''.'' \<or> c = CHR ''-'')"

definition is_char :: "char \<Rightarrow> char \<Rightarrow> bool" where
  "is_char x c = (c = x)"

text \<open>A letter under \<^verbatim>\<open>re.IGNORECASE\<close>.\<close>

definition is_char_ic :: "char \<Rightarrow> char \<Rightarrow> bool" where
  "is_char_ic x c = (to_lower c = to_lower x)"

text \<open>\<^verbatim>\<open>@[\w\.-]+\.co$\<close> with IGNORECASE.\<close>

definition re_co :: matcher where
  "re_co = seq (chr (is_char CHR ''@'')) (seq (rep_min 1 is_domain_char)
             (seq (chr (is_char CHR ''.'')) (seq (chr (is_char_ic CHR ''c''))
             (seq (chr (is_char_ic CHR ''o'')) dollar))))"

text \<open>\<^verbatim>\<open>\.(c|)$\<close> with IGNORECASE.\<close>

definition re_dot_c :: matcher where
  "re_dot_c = seq (chr (is_char CHR ''.'')) (seq (alt (chr (is_char_ic CHR ''c'')) eps) dollar)"

text \<open>\<^verbatim>\<open>@([\w\.-]+)\.(c|)$\<close> with IGNORECASE; what is reported is group 1.\<close>

definition re_trunc :: "string \<Rightarrow> (string \<times> string) list" where
  "re_trunc s =
     concat (map (\<lambda>(a, r0).
       concat (map (\<lambda>(g, r1). map (\<lambda>(b, r2). (g, r2)) (re_dot_c r1))
                   (rep_min 1 is_domain_char r0)))
       (chr (is_char CHR ''@'') s))"

lemma is_char_ic_c: "is_char_ic CHR ''c'' c \<longleftrightarrow> c = CHR ''c'' \<or> c = CHR ''C''"
  by (auto simp: is_char_ic_def to_lower_def split: if_splits)

lemma is_char_ic_o: "is_char_ic CHR ''o'' c \<longleftrightarrow> c = CHR ''o'' \<or> c = CHR ''O''"
  by (auto simp: is_char_ic_def to_lower_def split: if_splits)

lemma re_dot_c_set:
  "(a, r) \<in> set (re_dot_c s) \<longleftrightarrow>
     s = a @ r \<and> (a = ''.'' \<or> a = ''.c'' \<or> a = ''.C'') \<and> (r = [] \<or> r = [CHR 0x0A])"
  by (auto simp: re_dot_c_def seq_set chr_set alt_set eps_set dollar_set is_char_def is_char_ic_c)

lemma re_dot_c_shorter: "re_dot_c s = (a, r) # xs \<Longrightarrow> length r < length s"
proof -
  assume "re_dot_c s = (a, r) # xs"
  then have "(a, r) \<in> set (re_dot_c s)" by simp
  then show ?thesis by (auto simp: re_dot_c_set)
qed

text \<open>\<^verbatim>\<open>re.sub(r"\.(c|)$", repl, s, flags=re.IGNORECASE)\<close>: every match, found from
  left to right, is replaced by \<open>repl\<close> (which has no backslash, so it is taken as it
  is); the scan goes on after the match.\<close>

function re_sub_dot_c :: "string \<Rightarrow> string \<Rightarrow> string" where
  "re_sub_dot_c repl s =
     (case re_dot_c s of
        (a, r) # _ \<Rightarrow> repl @ re_sub_dot_c repl r
      | [] \<Rightarrow> (case s of [] \<Rightarrow> [] | c # cs \<Rightarrow> c # re_sub_dot_c repl cs))"
  by pat_completeness auto
termination
  by (relation "measure (\<lambda>(repl, s). length s)") (auto dest: re_dot_c_shorter)

declare re_sub_dot_c.simps [simp del]

text \<open>The loop over \<^verbatim>\<open>self.common_domains.items()\<close>: the first entry whose key occurs
  in the domain part gives \<^verbatim>\<open>extensions[0]\<close>, which raises IndexError on an empty
  list; \<open>None\<close> when the loop ends without a \<^verbatim>\<open>break\<close>.\<close>

fun find_known_domain :: "(string \<times> string list) list \<Rightarrow> string \<Rightarrow> error + string option" where
  "find_known_domain [] domain_part = Inr None"
| "find_known_domain ((known_domain, extensions) # rest) domain_part =
     (if str_in known_domain domain_part
      then (case extensions of [] \<Rightarrow> Inl IndexError | primary_ext # _ \<Rightarrow> Inr (Some primary_ext))
      else find_known_domain rest domain_part)"

text \<open>The end of \<^verbatim>\<open>correct_email\<close>: a correction is appended to the log, and the pair
  is returned.\<close>

definition register_correction ::
  "email_processor \<Rightarrow> string \<Rightarrow> string \<Rightarrow> bool \<Rightarrow> (string \<times> bool) \<times> email_processor" where
  "register_correction self original corrected was_changed =
     ((corrected, was_changed),
      (if was_changed
       then self\<lparr>corrections_log := corrections_log self @ [(original, corrected)]\<rparr>
       else self))"

definition correct_email ::
  "email_processor \<Rightarrow> pyval \<Rightarrow> error + ((string \<times> bool) \<times> email_processor)" where
  "correct_email self email =
     (case email of
        NotStr \<Rightarrow> Inr (([], False), self)
      | Str e \<Rightarrow>
          if strip e = [] then Inr (([], False), self)
          else
            let original = remove_spaces (strip e) in
            if search re_co original \<noteq> None
            then Inr (register_correction self original (original @ ''m'') True)
            else
              (case search re_trunc original of
                 Some (_, group1, _) \<Rightarrow>
                   (case find_known_domain (common_domains self) (lower group1) of
                      Inl err \<Rightarrow> Inl err
                    | Inr (Some primary_ext) \<Rightarrow>
                        Inr (register_correction self original
                               (re_sub_dot_c primary_ext original) True)
                    | Inr None \<Rightarrow>
                        Inr (register_correction self original
                               (re_sub_dot_c ''.com'' original) True))
               | None \<Rightarrow> Inr (register_correction self original original False)))"

text \<open>\<^verbatim>\<open>validate_email\<close>: \<^verbatim>\<open>re.match\<close> tries the first position only. The pattern is
  \<^verbatim>\<open>^[A-Za-z0-9._%+-]+@[A-Za-z0-9.-]+\.[A-Za-z]{2,}$\<close>.\<close>

definition is_local_char :: "char \<Rightarrow> bool" where
  "is_local_char c = (is_alpha c \<or> is_digit c \<or> c \<in> set ''._%+-'')"

definition is_host_char :: "char \<Rightarrow> bool" where
  "is_host_char c = (is_alpha c \<or> is_digit c \<or> c \<in> set ''.-'')"

definition re_valid :: matcher where
  "re_valid = seq (rep_min 1 is_local_char) (seq (chr (is_char CHR ''@''))
                (seq (rep_min 1 is_host_char) (seq (chr (is_char CHR ''.''))
                (seq (rep_min 2 is_alpha) dollar))))"

definition re_match :: "(string \<Rightarrow> ('a \<times> string) list) \<Rightarrow> string \<Rightarrow> ('a \<times> string) option" where
  "re_match m s = (case m s of [] \<Rightarrow> None | x # _ \<Rightarrow> Some x)"

definition validate_email :: "pyval \<Rightarrow> bool" where
  "validate_email email =
     (case email of
        NotStr \<Rightarrow> False
      | Str e \<Rightarrow> re_match re_valid (remove_spaces (strip e)) \<noteq> None)"

section \<open>SimplePDFExtractor\<close>

datatype status = APTO | SUSPENSO | ELIMINADO | INDEFINIDO

text \<open>One row of the table the extractor builds. The columns \<^verbatim>\<open>Email Foi Alterado\<close> and
  \<^verbatim>\<open>Tem Email\<close> hold the text for yes or for no in the source and a truth value here.\<close>

record dador =
  ID_Dador :: string
  Nome :: string
  Email_Original :: string
  Email_Corrigido :: string
  Email_Foi_Alterado :: bool
  Status :: status
  Tem_Email :: bool
  Ano_Registo :: "int option"

text \<open>What \<^verbatim>\<open>pdfplumber\<close> gives: opening the file raises, or there are pages; for a
  page, \<^verbatim>\<open>extract_text()\<close> raises, or returns a text or \<^verbatim>\<open>None\<close>.\<close>

datatype page = ExtractRaises string | ExtractText "string option"

datatype pdf = OpenRaises string | Pages "page list"

text \<open>\<^verbatim>\<open>texto.split('\n')\<close>.\<close>

fun split_nl :: "string \<Rightarrow> string list" where
  "split_nl [] = [[]]"
| "split_nl (c # cs) =
     (if c = CHR 0x0A then [] # split_nl cs
      else (case split_nl cs of l # ls \<Rightarrow> (c # l) # ls | [] \<Rightarrow> [[c]]))"

text \<open>\<^verbatim>\<open>(S[PCL]\.[A-Z0-9]+\.\d+/\d+)\<close>; group 1 is the whole match.\<close>

definition is_id_char :: "char \<Rightarrow> bool" where
  "is_id_char c = (is_upper c \<or> is_digit c)"

definition re_id :: matcher where
  "re_id = seq (chr (is_char CHR ''S'')) (seq (chr (\<lambda>c. c \<in> set ''PCL''))
             (seq (chr (is_char CHR ''.'')) (seq (rep_min 1 is_id_char)
             (seq (chr (is_char CHR ''.'')) (seq (rep_min 1 is_digit)
             (seq (chr (is_char CHR ''/'')) (rep_min 1 is_digit)))))))"

text \<open>\<^verbatim>\<open>[\w\.\-]+@[\w\.\-]+\.[a-zA-Z0-9\.]{1,}\<close>.\<close>

definition is_tld_char :: "char \<Rightarrow> bool" where
  "is_tld_char c = (is_alpha c \<or> is_digit c \<or> c = CHR ''.'')"

definition re_email :: matcher where
  "re_email = seq (rep_min 1 is_domain_char) (seq (chr (is_char CHR ''@''))
                (seq (rep_min 1 is_domain_char) (seq (chr (is_char CHR ''.''))
                (rep_min 1 is_tld_char))))"

text \<open>The pattern of the name,
  \<^verbatim>\<open>([A-Z...][A-Z...a-z...\s]+?)(?=\s*\d{2}/\d{2}/\d{4}|\s*\w+@|$)\<close>, where the dots stand
  for the accented letters of the source, which are outside ASCII. A lazy repetition
  tries the shortest run first; a lookahead consumes nothing.\<close>

definition rep_min_lazy :: "nat \<Rightarrow> (char \<Rightarrow> bool) \<Rightarrow> matcher" where
  "rep_min_lazy n P s = rev (rep_min n P s)"

definition lookahead :: "matcher \<Rightarrow> matcher" where
  "lookahead m s = (if m s = [] then [] else [([], s)])"

definition is_nome_char :: "char \<Rightarrow> bool" where
  "is_nome_char c = (is_alpha c \<or> is_space c)"

definition re_data :: matcher where
  "re_data = seq (chr is_digit) (seq (chr is_digit) (seq (chr (is_char CHR ''/''))
               (seq (chr is_digit) (seq (chr is_digit) (seq (chr (is_char CHR ''/''))
               (seq (chr is_digit) (seq (chr is_digit) (seq (chr is_digit) (chr is_digit)))))))))"

definition re_nome :: matcher where
  "re_nome = seq (seq (chr is_upper) (rep_min_lazy 1 is_nome_char))
               (lookahead (alt (seq (rep_min 0 is_space) re_data)
                          (alt (seq (rep_min 0 is_space) (seq (rep_min 1 is_word) (chr (is_char CHR ''@''))))
                               dollar)))"

text \<open>\<^verbatim>\<open>/(\d{2})$\<close>; what is reported is group 1.\<close>

definition re_ano :: "string \<Rightarrow> (string \<times> string) list" where
  "re_ano s =
     concat (map (\<lambda>(a, r0). seq (seq (chr is_digit) (chr is_digit)) dollar r0)
                 (chr (is_char CHR ''/'') s))"

text \<open>\<^verbatim>\<open>int(...)\<close> of a string of decimal digits.\<close>

definition digit_val :: "char \<Rightarrow> int" where
  "digit_val c = int (of_char c) - 48"

definition int_of_digits :: "string \<Rightarrow> int" where
  "int_of_digits ds = foldl (\<lambda>n c. 10 * n + digit_val c) 0 ds"

text \<open>The state of the loops of \<^verbatim>\<open>extrair_emails_pdf\<close>: the email processor (whose log
  grows), \<^verbatim>\<open>status_atual\<close> and the rows collected so far.\<close>

record extractor_state =
  email_processor :: email_processor
  status_atual :: status
  dados :: "dador list"

text \<open>The body of the loop over the lines of a page.\<close>

definition process_line :: "extractor_state \<Rightarrow> string \<Rightarrow> error + extractor_state" where
  "process_line st linha =
     (let linha_upper = upper linha;
          status_atual' =
            (if str_in ''APTOS'' linha_upper then APTO
             else if str_in ''SUSPENSOS'' linha_upper then SUSPENSO
             else if str_in ''ELIMINADOS'' linha_upper then ELIMINADO
             else status_atual st)
      in case search re_id linha of
           None \<Rightarrow> Inr (st\<lparr>status_atual := status_atual'\<rparr>)
         | Some (before, id_dador, after) \<Rightarrow>
             let status =
                   (if str_in ''APTO'' linha_upper then APTO
                    else if str_in ''SUSPENSO'' linha_upper then SUSPENSO
                    else if str_in ''ELIMINADO'' linha_upper then ELIMINADO
                    else status_atual');
                 email_original =
                   (case search re_email linha of Some (_, m, _) \<Rightarrow> m | None \<Rightarrow> [])
             in case correct_email (email_processor st) (Str email_original) of
                  Inl err \<Rightarrow> Inl err
                | Inr ((email_corrigido, foi_corrigido), ep) \<Rightarrow>
                    let tem_email = validate_email (Str email_corrigido);
                        resto = strip after;
                        nome = (case re_match re_nome resto of
                                  Some (m, _) \<Rightarrow> strip m | None \<Rightarrow> []);
                        ano_registo =
                          (if status = ELIMINADO
                           then (case search re_ano id_dador of
                                   Some (_, g, _) \<Rightarrow>
                                     let ano_2digitos = int_of_digits g
                                     in Some (if ano_2digitos < 50 then 2000 + ano_2digitos
                                              else 1900 + ano_2digitos)
                                 | None \<Rightarrow> None)
                           else None)
                    in Inr \<lparr>email_processor = ep, status_atual = status_atual',
                            dados = dados st @
                              [\<lparr>ID_Dador = id_dador, Nome = nome,
                                Email_Original = email_original,
                                Email_Corrigido = email_corrigido,
                                Email_Foi_Alterado = foi_corrigido,
                                Status = status, Tem_Email = tem_email,
                                Ano_Registo = ano_registo\<rparr>]\<rparr>)"

text \<open>The loop over the lines of a page, and the loop over the pages. An error ends
  both. A page without text is skipped.\<close>

fun process_lines :: "extractor_state \<Rightarrow> string list \<Rightarrow> error + extractor_state" where
  "process_lines st [] = Inr st"
| "process_lines st (linha # linhas) =
     (case process_line st linha of
        Inl err \<Rightarrow> Inl err
      | Inr st' \<Rightarrow> process_lines st' linhas)"

fun process_pages :: "extractor_state \<Rightarrow> page list \<Rightarrow> error + extractor_state" where
  "process_pages st [] = Inr st"
| "process_pages st (ExtractRaises msg # pages) = Inl (PdfError msg)"
| "process_pages st (ExtractText None # pages) = process_pages st pages"
| "process_pages st (ExtractText (Some texto) # pages) =
     (if texto = [] then process_pages st pages
      else (case process_lines st (split_nl texto) of
              Inl err \<Rightarrow> Inl err
            | Inr st' \<Rightarrow> process_pages st' pages))"

text \<open>\<^verbatim>\<open>extrair_emails_pdf\<close>: any exception raised inside the \<^verbatim>\<open>try\<close> is wrapped into one
  exception that carries it; otherwise the rows are returned (and the processor, with
  its log).\<close>

definition extrair_emails_pdf :: "email_processor \<Rightarrow> pdf \<Rightarrow> error + (email_processor \<times> dador list)" where
  "extrair_emails_pdf ep caminho_pdf =
     (case (case caminho_pdf of
              OpenRaises msg \<Rightarrow> Inl (PdfError msg)
            | Pages pages \<Rightarrow>
                process_pages \<lparr>email_processor = ep, status_atual = INDEFINIDO, dados = []\<rparr> pages)
      of Inl e \<Rightarrow> Inl (ErroProcessarPDF e)
       | Inr st \<Rightarrow> Inr (email_processor st, dados st))"

section \<open>The report\<close>

text \<open>
  A table is the list of its rows, in the order of the document; the eight columns are
  those of \<^typ>\<open>dador\<close>. The empty list is an empty table that has its columns: the
  frame without columns that the extractor builds from no rows never reaches
  \<^verbatim>\<open>gerar_lista_emails\<close>, since \<^verbatim>\<open>processar_pdf_para_emails\<close> refuses it first. Selecting
  rows is \<^const>\<open>filter\<close>; a comparison with a missing year is false. What \<^verbatim>\<open>gerar_lista_emails\<close> reads from outside is given to it:
  the current year, the formatted time stamp, and the text of the coverage rounded to
  one decimal, which the source computes in floating point.
\<close>

record ambiente =
  ano_corrente :: int
  gerado_em :: string
  cobertura_1f :: "nat \<Rightarrow> nat \<Rightarrow> string"

text \<open>The fixed texts of the report; a character outside ASCII is written as the
  bytes of its UTF-8 encoding.\<close>

definition titulo_estatisticas :: string where
  "titulo_estatisticas = [CHR 0xF0, CHR 0x9F, CHR 0x93, CHR 0x8A] @ '' ESTAT'' @ [CHR 0xC3, CHR 0x8D] @ ''STICAS:''"

definition txt_total_validos :: string where
  "txt_total_validos = ''   Total de emails v'' @ [CHR 0xC3, CHR 0xA1] @ ''lidos: ''"

definition txt_corrigidos :: string where
  "txt_corrigidos = ''   Emails corrigidos automaticamente: ''"

definition txt_cobertura :: string where
  "txt_cobertura = ''   Cobertura: ''"

definition emoji_email :: string where
  "emoji_email = [CHR 0xF0, CHR 0x9F, CHR 0x93, CHR 0xA7] @ '' ''"

definition txt_filtro :: string where
  "txt_filtro = ''FILTRO APLICADO: Apenas dadores eliminados dos '' @ [CHR 0xC3, CHR 0xBA] @ ''ltimos 3 anos (>=''"

definition txt_excluidos_1 :: string where
  "txt_excluidos_1 = ''(Dadores eliminados antes de ''"

definition txt_excluidos_2 :: string where
  "txt_excluidos_2 = '' foram exclu'' @ [CHR 0xC3, CHR 0xAD] @ ''dos para focar recursos de reten'' @ [CHR 0xC3, CHR 0xA7, CHR 0xC3, CHR 0xA3] @ ''o)''"

definition txt_nenhum :: string where
  "txt_nenhum = ''Nenhum email v'' @ [CHR 0xC3, CHR 0xA1] @ ''lido encontrado para este status.''"

definition titulo_correcoes :: string where
  "titulo_correcoes = [CHR 0xF0, CHR 0x9F, CHR 0x94, CHR 0xA7] @ '' RELAT'' @ [CHR 0xC3, CHR 0x93] @ ''RIO DE CORRE'' @ [CHR 0xC3, CHR 0x87, CHR 0xC3, CHR 0x95] @ ''ES APLICADAS''"

definition seta :: string where
  "seta = '' '' @ [CHR 0xE2, CHR 0x86, CHR 0x92] @ '' ''"

definition linha_dupla :: string where
  "linha_dupla = replicate 80 CHR ''=''"

definition status_name :: "status \<Rightarrow> string" where
  "status_name s = (case s of APTO \<Rightarrow> ''APTO'' | SUSPENSO \<Rightarrow> ''SUSPENSO''
                    | ELIMINADO \<Rightarrow> ''ELIMINADO'' | INDEFINIDO \<Rightarrow> ''INDEFINIDO'')"

text \<open>Decimal numerals, as \<^verbatim>\<open>str()\<close> of an integer writes them.\<close>

fun show_nat :: "nat \<Rightarrow> string" where
  "show_nat n = (if n < 10 then [''0123456789'' ! n]
                 else show_nat (n div 10) @ [''0123456789'' ! (n mod 10)])"

declare show_nat.simps [simp del]

definition show_int :: "int \<Rightarrow> string" where
  "show_int i = (if i < 0 then ''-'' @ show_nat (nat (- i)) else show_nat (nat i))"

text \<open>\<^verbatim>\<open>sep.join(xs)\<close>.\<close>

fun join :: "string \<Rightarrow> string list \<Rightarrow> string" where
  "join sep [] = []"
| "join sep [x] = x"
| "join sep (x # y # ys) = x @ sep @ join sep (y # ys)"

text \<open>\<^verbatim>\<open>Series.dropna()\<close>, and \<^verbatim>\<open>Series.unique()\<close>, which keeps the values in the order of
  their first appearance.\<close>

fun dropna :: "'a option list \<Rightarrow> 'a list" where
  "dropna [] = []"
| "dropna (None # xs) = dropna xs"
| "dropna (Some x # xs) = x # dropna xs"

fun unique_from :: "'a list \<Rightarrow> 'a list \<Rightarrow> 'a list" where
  "unique_from seen [] = []"
| "unique_from seen (x # xs) =
     (if x \<in> set seen then unique_from seen xs else x # unique_from (x # seen) xs)"

definition unique :: "'a list \<Rightarrow> 'a list" where
  "unique xs = unique_from [] xs"

text \<open>The year of the cut for the eliminated donors.\<close>

definition ano_corte :: "int \<Rightarrow> dador list \<Rightarrow> int" where
  "ano_corte ano_atual df =
     (let anos = dropna (map Ano_Registo df);
          ano_atual' =
            (if anos \<noteq> []
             then (let ano_max_amostra = fold max (tl anos) (hd anos)
                   in if ano_max_amostra > 2000 then ano_max_amostra else ano_atual)
             else ano_atual)
      in ano_atual' - 3)"

text \<open>\<^verbatim>\<open>emails_status\<close> in the loop over the three statuses.\<close>

definition emails_status :: "int \<Rightarrow> dador list \<Rightarrow> status \<Rightarrow> string list" where
  "emails_status corte df status =
     (if status = ELIMINADO
      then (let df_filtrado = filter (\<lambda>r. Status r = status) df;
                df_filtrado' = filter (\<lambda>r. Ano_Registo r \<noteq> None \<and>
                                          (case Ano_Registo r of Some y \<Rightarrow> y \<ge> corte | None \<Rightarrow> False))
                                      df_filtrado
            in unique (map Email_Corrigido (filter Tem_Email df_filtrado')))
      else unique (map Email_Corrigido (filter (\<lambda>r. Status r = status \<and> Tem_Email r) df)))"

text \<open>The lines one pass of the loop appends.\<close>

definition secao_status :: "int \<Rightarrow> dador list \<Rightarrow> status \<Rightarrow> string list" where
  "secao_status corte df status =
     [linha_dupla, emoji_email @ status_name status @ ''S'', linha_dupla, []]
     @ (if status = ELIMINADO
        then [txt_filtro @ show_int corte @ '')'',
              txt_excluidos_1 @ show_int corte @ txt_excluidos_2,
              []]
        else [])
     @ (let es = emails_status corte df status
        in if length es > 0
           then [''Total: '' @ show_nat (length es) @ '' emails'', [], join ''; '' es, []]
           else [txt_nenhum])
     @ [[]]"

definition cabecalho :: "ambiente \<Rightarrow> dador list \<Rightarrow> string list" where
  "cabecalho env df =
     (let total_emails_validos = length (filter Tem_Email df);
          emails_corrigidos = length (filter Email_Foi_Alterado df)
      in [linha_dupla,
          ''LISTAGEM DE EMAILS PARA MAILING - FIVA Email Extractor'',
          ''Gerado em: '' @ gerado_em env,
          linha_dupla,
          [],
          titulo_estatisticas,
          txt_total_validos @ show_nat total_emails_validos,
          txt_corrigidos @ show_nat emails_corrigidos,
          txt_cobertura @ cobertura_1f env total_emails_validos (length df) @ ''%'',
          []])"

definition relatorio_correcoes :: "dador list \<Rightarrow> email_processor \<Rightarrow> string list" where
  "relatorio_correcoes df ep =
     (if length (filter Email_Foi_Alterado df) > 0
      then [linha_dupla, titulo_correcoes, linha_dupla, []]
           @ map (\<lambda>(original, corrected). ''   '' @ original @ seta @ corrected) (corrections_log ep)
      else [])"

definition linhas_relatorio :: "ambiente \<Rightarrow> dador list \<Rightarrow> email_processor \<Rightarrow> string list" where
  "linhas_relatorio env df ep =
     (let corte = ano_corte (ano_corrente env) df
      in cabecalho env df
         @ concat (map (secao_status corte df) [APTO, SUSPENSO, ELIMINADO])
         @ relatorio_correcoes df ep)"

definition gerar_lista_emails :: "ambiente \<Rightarrow> dador list \<Rightarrow> email_processor \<Rightarrow> string" where
  "gerar_lista_emails env df ep = join [CHR 0x0A] (linhas_relatorio env df ep)"

text \<open>\<^verbatim>\<open>processar_pdf_para_emails\<close>: a new processor, the extraction, the refusal of an
  empty table, the report.\<close>

definition processar_pdf_para_emails :: "ambiente \<Rightarrow> pdf \<Rightarrow> error + string" where
  "processar_pdf_para_emails env caminho_pdf =
     (case extrair_emails_pdf EmailProcessor_init caminho_pdf of
        Inl e \<Rightarrow> Inl e
      | Inr (ep, df) \<Rightarrow>
          if df = [] then Inl NenhumDado
          else Inr (gerar_lista_emails env df ep))"

section \<open>Definitions used to state the claims\<close>

text \<open>A page whose text can be extracted.\<close>

definition has_text :: "page \<Rightarrow> bool" where
  "has_text p = (case p of ExtractRaises _ \<Rightarrow> False | ExtractText _ \<Rightarrow> True)"

















text \<open>The form of a string that \<^verbatim>\<open>strip\<close> and \<^verbatim>\<open>replace(" ", "")\<close> leave alone:
  not empty, no white space at either end, no space inside.\<close>

definition normal :: "string \<Rightarrow> bool" where
  "normal s = (s \<noteq> [] \<and> \<not> is_space (hd s) \<and> \<not> is_space (last s) \<and> CHR '' '' \<notin> set s)"

text \<open>The extension the specification promises for a truncated address: the first
  listed extension of the first entry of the table, in the order of its definition,
  whose root occurs in the domain part; \<^verbatim>\<open>.com\<close> when there is none.\<close>

definition first_known_extension :: "string \<Rightarrow> string" where
  "first_known_extension d =
     (case find (\<lambda>(root, exts). sublist root d) DOMINIOS_CONHECIDOS of
        Some (root, exts) \<Rightarrow> hd exts
      | None \<Rightarrow> ''.com'')"

section \<open>Properties of the email processor\<close>

lemma starts_with_prefix: "starts_with a s \<longleftrightarrow> prefix a s"
  by (induction a s rule: starts_with.induct) auto

lemma str_in_sublist: "str_in a s \<longleftrightarrow> sublist a s"
  by (induction s) (auto simp: starts_with_prefix sublist_Cons_right)


lemma rep_min_intro:
  "n \<le> length a \<Longrightarrow> \<forall>c\<in>set a. P c \<Longrightarrow> (a, r) \<in> set (rep_min n P (a @ r))"
  by (simp add: rep_min_set)

lemma re_co_elim:
  assumes "(a, r) \<in> set (re_co s)"
  shows "\<exists>g c1 c2. a = ''@'' @ g @ ''.'' @ [c1, c2] \<and> s = a @ r \<and> g \<noteq> [] \<and>
              (\<forall>x\<in>set g. is_domain_char x) \<and>
              (c1 = CHR ''c'' \<or> c1 = CHR ''C'') \<and> (c2 = CHR ''o'' \<or> c2 = CHR ''O'') \<and>
              (r = [] \<or> r = [CHR 0x0A])"
  using assms
  by (auto simp: re_co_def seq_set chr_set rep_min_set dollar_set is_char_def
      is_char_ic_c is_char_ic_o Suc_le_eq)


lemma re_trunc_elim:
  assumes "(g, r) \<in> set (re_trunc s)"
  shows "\<exists>x. s = ''@'' @ g @ ''.'' @ x @ r \<and> g \<noteq> [] \<and> (\<forall>c\<in>set g. is_domain_char c) \<and>
          (x = [] \<or> x = ''c'' \<or> x = ''C'') \<and> (r = [] \<or> r = [CHR 0x0A])"
  using assms
  by (auto simp: re_trunc_def chr_set rep_min_set re_dot_c_set is_char_def Suc_le_eq)

lemma re_trunc_intro:
  assumes "g \<noteq> []" "\<forall>c\<in>set g. is_domain_char c" "x = [] \<or> x = ''c'' \<or> x = ''C''"
    "r = [] \<or> r = [CHR 0x0A]"
  shows "(g, r) \<in> set (re_trunc (''@'' @ g @ ''.'' @ x @ r))"
proof -
  have 1: "(''.'' @ x, r) \<in> set (re_dot_c (''.'' @ x @ r))"
    using assms by (auto simp: re_dot_c_set)
  have 2: "(g, ''.'' @ x @ r) \<in> set (rep_min 1 is_domain_char (g @ ''.'' @ x @ r))"
    using assms by (intro rep_min_intro) (simp_all add: Suc_le_eq)
  have 3: "(''@'', g @ ''.'' @ x @ r) \<in> set (chr (is_char CHR ''@'') (''@'' @ g @ ''.'' @ x @ r))"
    by (simp add: chr_set is_char_def)
  show ?thesis
    unfolding re_trunc_def set_concat set_map
    using 1 2 3 by force
qed


lemma search_re_co_last:
  assumes "search re_co s \<noteq> None"
  shows "s \<noteq> [] \<and> last s \<in> {CHR ''o'', CHR ''O'', CHR 0x0A}"
proof -
  from assms obtain p t where s: "s = p @ t" and "re_co t \<noteq> []"
    unfolding search_None by blast
  then obtain a r where "(a, r) \<in> set (re_co t)" by (cases "re_co t") auto
  from re_co_elim[OF this] s show ?thesis by auto
qed

lemma split_shorter:
  "p' @ t' = pre @ t \<Longrightarrow> length p' < length pre \<Longrightarrow> \<exists>u. pre = p' @ u \<and> u \<noteq> [] \<and> t' = u @ t"
  by (auto simp: append_eq_append_conv2)

lemma search_re_trunc_found:
  assumes s: "s = pre @ ''@'' @ g @ ''.'' @ x" and g: "g \<noteq> []" "\<forall>c\<in>set g. is_domain_char c"
    and x: "x = [] \<or> x = ''c'' \<or> x = ''C''"
  shows "search re_trunc s = Some (pre, g, [])"
proof -
  let ?t = "''@'' @ g @ ''.'' @ x"
  have at: "CHR ''@'' \<notin> set g" using g by (auto simp: is_domain_char_def is_word_def is_alpha_def is_upper_def is_lower_def is_digit_def)
  have in_t: "(g, []) \<in> set (re_trunc ?t)"
    using re_trunc_intro[OF g x, of "[]"] by simp
  have all_t: "y = (g, [])" if "y \<in> set (re_trunc ?t)" for y
  proof -
    obtain g' r where y: "y = (g', r)" by (cases y)
    from re_trunc_elim[OF that[unfolded y]] obtain x' where
      e: "?t = ''@'' @ g' @ ''.'' @ x' @ r" and x': "x' = [] \<or> x' = ''c'' \<or> x' = ''C''"
      and r: "r = [] \<or> r = [CHR 0x0A]" by blast
    from e have e': "g @ ''.'' @ x = g' @ ''.'' @ x' @ r" by simp
    have "r = []"
    proof (rule ccontr)
      assume "r \<noteq> []"
      with r have "last (g' @ ''.'' @ x' @ r) = CHR 0x0A" by auto
      moreover have "last (g @ ''.'' @ x) \<noteq> CHR 0x0A" using x by auto
      ultimately show False using arg_cong[OF e', of last] by metis
    qed
    with e' have e'': "g @ ''.'' @ x = g' @ ''.'' @ x'" by simp
    have "x = x'"
    proof -
      have "last (g @ ''.'' @ x) = last (g' @ ''.'' @ x')" using arg_cong[OF e'', of last] .
      with x x' show ?thesis by auto
    qed
    with e'' have "g = g'" by simp
    with \<open>r = []\<close> y show ?thesis by simp
  qed
  have ne: "re_trunc ?t \<noteq> []" using in_t by auto
  then have hd_t: "hd (re_trunc ?t) = (g, [])"
    using all_t[of "hd (re_trunc ?t)"] by simp
  have before: "re_trunc t' = []" if "s = p' @ t'" "length p' < length pre" for p' t'
  proof (rule ccontr)
    assume "re_trunc t' \<noteq> []"
    then obtain g' r where "(g', r) \<in> set (re_trunc t')" by (cases "re_trunc t'") auto
    from re_trunc_elim[OF this] obtain x' where
      e: "t' = ''@'' @ g' @ ''.'' @ x' @ r" and g': "\<forall>c\<in>set g'. is_domain_char c"
      and x': "x' = [] \<or> x' = ''c'' \<or> x' = ''C''"
      and r: "r = [] \<or> r = [CHR 0x0A]" by blast
    have "CHR ''@'' \<notin> set g'" using g' by (auto simp: is_domain_char_def is_word_def is_alpha_def is_upper_def is_lower_def is_digit_def)
    with e x' r have one: "CHR ''@'' \<notin> set (tl t')" by auto
    from that s have "p' @ t' = pre @ ?t" by simp
    from split_shorter[OF this that(2)] obtain u where u: "pre = p' @ u" "u \<noteq> []" "t' = u @ ?t"
      by blast
    then have "CHR ''@'' \<in> set (tl t')" by (cases u) auto
    with one show False by simp
  qed
  have "search re_trunc s = Some (pre, fst (hd (re_trunc ?t)), snd (hd (re_trunc ?t)))"
    by (rule search_first[of s pre ?t re_trunc, OF s ne before])
  with hd_t show ?thesis by simp
qed

lemma re_dot_c_Nil: "re_dot_c [] = []"
  by (simp add: re_dot_c_def seq_def chr_def)

lemma re_sub_dot_c_Nil: "re_sub_dot_c repl [] = []"
  by (subst re_sub_dot_c.simps) (simp add: re_dot_c_Nil)

lemma re_sub_dot_c_match:
  "re_dot_c s = (a, r) # xs \<Longrightarrow> re_sub_dot_c repl s = repl @ re_sub_dot_c repl r"
  by (subst re_sub_dot_c.simps) simp

lemma re_sub_dot_c_skip:
  "re_dot_c (c # cs) = [] \<Longrightarrow> re_sub_dot_c repl (c # cs) = c # re_sub_dot_c repl cs"
  by (subst re_sub_dot_c.simps) simp

lemma re_sub_dot_c_suffix:
  assumes x: "x = [] \<or> x = ''c'' \<or> x = ''C''"
  shows "re_sub_dot_c repl (u @ ''.'' @ x) = u @ repl"
proof (induction u)
  case Nil
  have "(''.'' @ x, []) \<in> set (re_dot_c (''.'' @ x))" using x by (auto simp: re_dot_c_set)
  then have ne: "re_dot_c (''.'' @ x) \<noteq> []" by auto
  then obtain a r xs where h: "re_dot_c (''.'' @ x) = (a, r) # xs"
    by (cases "re_dot_c (''.'' @ x)") auto
  then have "(a, r) \<in> set (re_dot_c (''.'' @ x))" by simp
  then have "r = []" using x by (auto simp: re_dot_c_set)
  then show ?case using re_sub_dot_c_match[OF h, of repl]
    by (simp add: re_sub_dot_c_Nil)
next
  case (Cons c u)
  have "re_dot_c (c # u @ ''.'' @ x) = []"
  proof (rule ccontr)
    assume "re_dot_c (c # u @ ''.'' @ x) \<noteq> []"
    then obtain a r where "(a, r) \<in> set (re_dot_c (c # u @ ''.'' @ x))"
      by (cases "re_dot_c (c # u @ ''.'' @ x)") auto
    then have e: "c # u @ ''.'' @ x = a @ r" and a: "a = ''.'' \<or> a = ''.c'' \<or> a = ''.C''"
      and r: "r = [] \<or> r = [CHR 0x0A]"
      by (auto simp: re_dot_c_set)
    have "last (c # u @ ''.'' @ x) \<noteq> CHR 0x0A" using x by auto
    with r have "r = []" using arg_cong[OF e, of last] a by (cases "r = []") auto
    with e a have w: "c # u @ ''.'' @ x = ''.'' \<or> c # u @ ''.'' @ x = ''.c'' \<or> c # u @ ''.'' @ x = ''.C''"
      by auto
    show False
    proof (cases u)
      case Nil
      with w show ?thesis by auto
    next
      case (Cons d u')
      with w have "length (u' @ ''.'' @ x) = 0" by auto
      then show ?thesis by simp
    qed
  qed
  then show ?case using Cons.IH re_sub_dot_c_skip[of c "u @ ''.'' @ x" repl]
    by simp
qed

lemma is_space_space: "is_space CHR '' ''"
  by (simp add: is_space_def)

lemma strip_ends:
  assumes "strip e \<noteq> []"
  shows "\<not> is_space (hd (strip e)) \<and> \<not> is_space (last (strip e))"
proof -
  let ?d = "dropWhile is_space e"
  let ?w = "dropWhile is_space (rev ?d)"
  have w: "?w \<noteq> []" using assms by (simp add: strip_def)
  then have d: "?d \<noteq> []" by (metis dropWhile.simps(1) rev.simps(1))
  have "rev ?d = takeWhile is_space (rev ?d) @ ?w" by simp
  then have "?d = rev ?w @ rev (takeWhile is_space (rev ?d))"
    by (metis rev_append rev_rev_ident)
  then have "hd ?d = hd (rev ?w)" using w by (metis hd_append2 rev_is_Nil_conv)
  moreover have "\<not> is_space (hd ?d)" using d by (rule hd_dropWhile)
  moreover have "\<not> is_space (hd ?w)" using w by (rule hd_dropWhile)
  moreover have "last (rev ?w) = hd ?w" using w by (simp add: last_rev)
  ultimately show ?thesis by (simp add: strip_def)
qed

lemma remove_spaces_hd:
  "s \<noteq> [] \<Longrightarrow> hd s \<noteq> CHR '' '' \<Longrightarrow> remove_spaces s \<noteq> [] \<and> hd (remove_spaces s) = hd s"
  by (cases s) (auto simp: remove_spaces_def)

lemma remove_spaces_last:
  "s \<noteq> [] \<Longrightarrow> last s \<noteq> CHR '' '' \<Longrightarrow> last (remove_spaces s) = last s"
proof (induction s)
  case Nil
  then show ?case by simp
next
  case (Cons a s)
  show ?case
  proof (cases "s = []")
    case True
    with Cons.prems show ?thesis by (simp add: remove_spaces_def)
  next
    case False
    with Cons.prems have l: "last s \<noteq> CHR '' ''" by simp
    from False have "last s \<in> set s" by simp
    with l have "filter (\<lambda>c. c \<noteq> CHR '' '') s \<noteq> []"
      by (auto simp: filter_empty_conv)
    with Cons.IH[OF False l] False show ?thesis by (simp add: remove_spaces_def)
  qed
qed

lemma normal_remove_spaces_strip:
  assumes "strip e \<noteq> []"
  shows "normal (remove_spaces (strip e))"
proof -
  from strip_ends[OF assms] have h: "hd (strip e) \<noteq> CHR '' ''" and l: "last (strip e) \<noteq> CHR '' ''"
    using is_space_space by auto
  from remove_spaces_hd[OF assms h] remove_spaces_last[OF assms l] strip_ends[OF assms]
  show ?thesis by (auto simp: normal_def remove_spaces_def)
qed

lemma strip_normal:
  assumes "normal s"
  shows "strip s = s" "remove_spaces s = s"
proof -
  from assms have "dropWhile is_space s = s" by (cases s) (auto simp: normal_def)
  moreover from assms have "dropWhile is_space (rev s) = rev s"
    by (cases "rev s") (auto simp: normal_def last_rev[symmetric] hd_rev)
  ultimately show "strip s = s" by (simp add: strip_def)
  from assms show "remove_spaces s = s" by (auto simp: normal_def remove_spaces_def filter_id_conv)
qed

lemma strip_empty_remove_spaces: "remove_spaces (strip e) \<noteq> [] \<Longrightarrow> strip e \<noteq> []"
  by (auto simp: remove_spaces_def)

lemma search_re_trunc_last:
  assumes "search re_trunc s \<noteq> None"
  shows "s \<noteq> [] \<and> last s \<in> {CHR ''.'', CHR ''c'', CHR ''C'', CHR 0x0A}"
proof -
  from assms obtain p t where s: "s = p @ t" and "re_trunc t \<noteq> []"
    unfolding search_None by blast
  then obtain a r where "(a, r) \<in> set (re_trunc t)" by (cases "re_trunc t") auto
  from re_trunc_elim[OF this] s show ?thesis by auto
qed

lemma find_known_domain_find:
  "\<forall>(k, es)\<in>set tbl. es \<noteq> [] \<Longrightarrow>
   find_known_domain tbl d = Inr (map_option (\<lambda>(k, es). hd es) (find (\<lambda>(k, es). sublist k d) tbl))"
  by (induction tbl) (auto simp: str_in_sublist split: list.splits)

lemma DOMINIOS_nonempty: "\<forall>(k, es)\<in>set DOMINIOS_CONHECIDOS. es \<noteq> []"
  by (simp add: DOMINIOS_CONHECIDOS_def)

lemma find_known_domain_std:
  "find_known_domain DOMINIOS_CONHECIDOS d =
     Inr (map_option (\<lambda>(k, es). hd es) (find (\<lambda>(k, es). sublist k d) DOMINIOS_CONHECIDOS))"
  by (rule find_known_domain_find[OF DOMINIOS_nonempty])

lemma no_rule_a_when_truncated:
  assumes s: "s = pre @ ''@'' @ g @ ''.'' @ x"
    and x: "x = [] \<or> x = ''c'' \<or> x = ''C''"
  shows "search re_co s = None"
proof (rule ccontr)
  assume "search re_co s \<noteq> None"
  from search_re_co_last[OF this] have "last s \<in> {CHR ''o'', CHR ''O'', CHR 0x0A}" by simp
  moreover have "last s = last (''.'' @ x)" unfolding s by simp
  ultimately show False using x by auto
qed

lemma first_known_extension_find:
  "(case find_known_domain DOMINIOS_CONHECIDOS d of
      Inl err \<Rightarrow> None | Inr (Some ext) \<Rightarrow> Some ext | Inr None \<Rightarrow> Some ''.com'')
   = Some (first_known_extension d)"
  unfolding find_known_domain_std first_known_extension_def
  by (cases "find (\<lambda>(k, es). sublist k d) DOMINIOS_CONHECIDOS") auto


lemma correct_email_truncated:
  assumes s: "remove_spaces (strip e) = pre @ ''@'' @ g @ ''.'' @ x"
    and g: "g \<noteq> []" "\<forall>c\<in>set g. is_domain_char c"
    and x: "x = [] \<or> x = ''c'' \<or> x = ''C''"
    and tbl: "common_domains self = DOMINIOS_CONHECIDOS"
  shows "correct_email self (Str e) =
           Inr ((pre @ ''@'' @ g @ first_known_extension (lower g), True),
                self\<lparr>corrections_log := corrections_log self @
                   [(remove_spaces (strip e), pre @ ''@'' @ g @ first_known_extension (lower g))]\<rparr>)"
proof -
  let ?o = "remove_spaces (strip e)"
  from s have "?o \<noteq> []" by simp
  then have ne: "strip e \<noteq> []" by (rule strip_empty_remove_spaces)
  have no_a: "search re_co ?o = None"
    by (rule no_rule_a_when_truncated[OF s x])
  have b: "search re_trunc ?o = Some (pre, g, [])"
    by (rule search_re_trunc_found[OF s g x])
  have sub: "re_sub_dot_c repl ?o = pre @ ''@'' @ g @ repl" for repl
    using re_sub_dot_c_suffix[OF x, of repl "pre @ ''@'' @ g"] unfolding s by simp
  from first_known_extension_find[of "lower g"]
  show ?thesis
    unfolding correct_email_def Let_def
    by (simp add: ne no_a b tbl sub register_correction_def
        split: sum.splits option.splits)
qed

lemma first_known_extension_cases:
  "first_known_extension d = ''.com'' \<or> first_known_extension d = ''.pt''"
proof (cases "find (\<lambda>(root, exts). sublist root d) DOMINIOS_CONHECIDOS")
  case None
  then show ?thesis by (simp add: first_known_extension_def)
next
  case (Some p)
  then have "p \<in> set DOMINIOS_CONHECIDOS"
    by (metis find_Some_iff nth_mem)
  then have "hd (snd p) = ''.com'' \<or> hd (snd p) = ''.pt''"
    by (auto simp: DOMINIOS_CONHECIDOS_def)
  with Some show ?thesis by (cases p) (simp add: first_known_extension_def)
qed

lemma correct_email_unchanged:
  assumes "normal c" "search re_co c = None" "search re_trunc c = None"
  shows "correct_email self (Str c) = Inr ((c, False), self)"
proof -
  from assms(1) have "c \<noteq> []" by (simp add: normal_def)
  with strip_normal[OF assms(1)] assms(2,3) show ?thesis
    by (simp add: correct_email_def register_correction_def)
qed

lemma is_space_newline: "is_space (CHR 0x0A)"
  by (simp add: is_space_def)

lemma search_re_trunc_normal:
  assumes "search re_trunc s = Some (p, g, r)" "normal s"
  shows "\<exists>x. s = p @ ''@'' @ g @ ''.'' @ x \<and> g \<noteq> [] \<and> (\<forall>c\<in>set g. is_domain_char c) \<and>
             (x = [] \<or> x = ''c'' \<or> x = ''C'')"
proof -
  from search_Some_sound[OF assms(1)] obtain t where
    t: "s = p @ t" "re_trunc t \<noteq> []" "hd (re_trunc t) = (g, r)" by blast
  then have "(g, r) \<in> set (re_trunc t)" by (metis hd_in_set)
  from re_trunc_elim[OF this] obtain x where
    x: "t = ''@'' @ g @ ''.'' @ x @ r" "g \<noteq> []" "\<forall>c\<in>set g. is_domain_char c"
       "x = [] \<or> x = ''c'' \<or> x = ''C''" "r = [] \<or> r = [CHR 0x0A]" by blast
  have "r = []"
  proof (rule ccontr)
    assume "r \<noteq> []"
    with x(5) have "r = [CHR 0x0A]" by simp
    with t(1) x(1) have "last s = CHR 0x0A" by simp
    with assms(2) is_space_newline show False by (simp add: normal_def)
  qed
  with t(1) x show ?thesis by auto
qed

lemma no_rule_by_last:
  assumes "last s = CHR ''m'' \<or> last s = CHR ''t''"
  shows "search re_co s = None" "search re_trunc s = None"
proof -
  show "search re_co s = None"
  proof (rule ccontr)
    assume "search re_co s \<noteq> None"
    from search_re_co_last[OF this] assms show False by auto
  qed
  show "search re_trunc s = None"
  proof (rule ccontr)
    assume "search re_trunc s \<noteq> None"
    from search_re_trunc_last[OF this] assms show False by auto
  qed
qed

lemma correct_email_blank:
  "strip e = [] \<Longrightarrow> correct_email self (Str e) = Inr (([], False), self)"
  by (simp add: correct_email_def)

lemma strip_Nil: "strip [] = []"
  by (simp add: strip_def)

lemma correct_email_a:
  assumes "strip e \<noteq> []" "search re_co (remove_spaces (strip e)) \<noteq> None"
  shows "correct_email self (Str e) =
    Inr (register_correction self (remove_spaces (strip e)) (remove_spaces (strip e) @ ''m'') True)"
  using assms by (simp add: correct_email_def Let_def)

lemma correct_email_none:
  assumes "strip e \<noteq> []" "search re_co (remove_spaces (strip e)) = None"
    "search re_trunc (remove_spaces (strip e)) = None"
  shows "correct_email self (Str e) =
    Inr (register_correction self (remove_spaces (strip e)) (remove_spaces (strip e)) False)"
  using assms by (simp add: correct_email_def Let_def)

lemma normal_after_rule_a: "normal s \<Longrightarrow> normal (s @ ''m'')"
  by (auto simp: normal_def is_space_def)

lemma normal_after_rule_b:
  assumes "normal (u @ ''.'' @ x)" "u \<noteq> []" "w = ''.com'' \<or> w = ''.pt''"
  shows "normal (u @ w)"
  using assms by (auto simp: normal_def is_space_def)

section \<open>Properties of the extractor\<close>

lemma correct_email_std_ok:
  assumes "common_domains ep = DOMINIOS_CONHECIDOS"
  shows "\<exists>c b ep'. correct_email ep v = Inr ((c, b), ep') \<and> common_domains ep' = DOMINIOS_CONHECIDOS"
  using assms
  by (cases v)
     (auto simp: correct_email_def register_correction_def Let_def find_known_domain_std
        split: option.splits)

lemma process_line_std_ok:
  assumes "common_domains (email_processor st) = DOMINIOS_CONHECIDOS"
  shows "\<exists>st'. process_line st linha = Inr st' \<and>
           common_domains (email_processor st') = DOMINIOS_CONHECIDOS"
proof (cases "search re_id linha")
  case None
  with assms show ?thesis by (simp add: process_line_def Let_def)
next
  case (Some m)
  obtain before id_dador after where m: "m = (before, id_dador, after)" by (cases m)
  let ?eo = "case search re_email linha of Some (_, m, _) \<Rightarrow> m | None \<Rightarrow> []"
  from correct_email_std_ok[OF assms, of "Str ?eo"] obtain c b ep' where
    "correct_email (email_processor st) (Str ?eo) = Inr ((c, b), ep')"
    "common_domains ep' = DOMINIOS_CONHECIDOS" by blast
  with Some m show ?thesis by (simp add: process_line_def Let_def)
qed

lemma process_lines_std_ok:
  "common_domains (email_processor st) = DOMINIOS_CONHECIDOS \<Longrightarrow>
   \<exists>st'. process_lines st linhas = Inr st' \<and>
         common_domains (email_processor st') = DOMINIOS_CONHECIDOS"
proof (induction linhas arbitrary: st)
  case Nil
  then show ?case by simp
next
  case (Cons linha linhas)
  from process_line_std_ok[OF Cons.prems, of linha] obtain st1 where
    s: "process_line st linha = Inr st1" "common_domains (email_processor st1) = DOMINIOS_CONHECIDOS"
    by blast
  from Cons.IH[OF s(2)] s(1) show ?case by simp
qed

lemma process_pages_std_ok:
  "common_domains (email_processor st) = DOMINIOS_CONHECIDOS \<Longrightarrow> \<forall>p\<in>set pages. has_text p \<Longrightarrow>
   \<exists>st'. process_pages st pages = Inr st' \<and>
         common_domains (email_processor st') = DOMINIOS_CONHECIDOS"
proof (induction st pages rule: process_pages.induct)
  case (1 st)
  then show ?case by simp
next
  case (2 st msg pages)
  then show ?case by (simp add: has_text_def)
next
  case (3 st pages)
  then show ?case by simp
next
  case (4 st texto pages)
  show ?case
  proof (cases "texto = []")
    case True
    with 4 show ?thesis by simp
  next
    case False
    from process_lines_std_ok[OF "4.prems"(1), of "split_nl texto"] obtain st1 where
      s: "process_lines st (split_nl texto) = Inr st1"
         "common_domains (email_processor st1) = DOMINIOS_CONHECIDOS" by blast
    from "4.IH"(2)[OF False s(1) s(2)] "4.prems"(2) False s(1) show ?thesis by simp
  qed
qed

lemma process_pages_append:
  "process_pages st (pre @ rest) =
     (case process_pages st pre of Inl e \<Rightarrow> Inl e | Inr st' \<Rightarrow> process_pages st' rest)"
  by (induction st pre rule: process_pages.induct) (auto split: sum.splits)





























section \<open>Properties of the report\<close>













section \<open>The first match of a backtracking search\<close>














section \<open>Claims about the email corrector\<close>





text \<open>
  C9. \<open>correct_email\<close> is idempotent: what a processor with the table of the source
  returns for a string is returned unchanged, with no change reported, when it is
  given to \<open>correct_email\<close> again.
\<close>

theorem correct_email_idempotent:
  assumes tbl: "common_domains self = DOMINIOS_CONHECIDOS"
    and first: "correct_email self (Str e) = Inr ((c, b), self')"
  shows "correct_email self' (Str c) = Inr ((c, False), self')"
proof (cases "strip e = []")
  case True
  from first have "c = []" unfolding correct_email_blank[OF True] by simp
  then show ?thesis using correct_email_blank[OF strip_Nil] by simp
next
  case False
  let ?o = "remove_spaces (strip e)"
  have n: "normal ?o" by (rule normal_remove_spaces_strip[OF False])
  show ?thesis
  proof (cases "search re_co ?o = None")
    case a: False
    from first have c: "c = ?o @ ''m''"
      unfolding correct_email_a[OF False a] register_correction_def by simp
    have nc: "normal c" unfolding c by (rule normal_after_rule_a[OF n])
    have l: "last c = CHR ''m'' \<or> last c = CHR ''t''" unfolding c by simp
    show ?thesis
      by (rule correct_email_unchanged[OF nc no_rule_by_last[OF l]])
  next
    case a: True
    show ?thesis
    proof (cases "search re_trunc ?o")
      case None
      from first have c: "c = ?o"
        unfolding correct_email_none[OF False a None] register_correction_def by simp
      show ?thesis unfolding c
        by (rule correct_email_unchanged[OF n a None])
    next
      case (Some m)
      obtain p g r where m: "m = (p, g, r)" by (cases m)
      from search_re_trunc_normal[OF Some[unfolded m] n] obtain x where
        x: "?o = p @ ''@'' @ g @ ''.'' @ x" "g \<noteq> []" "\<forall>c\<in>set g. is_domain_char c"
           "x = [] \<or> x = ''c'' \<or> x = ''C''" by blast
      let ?ext = "first_known_extension (lower g)"
      from first have c: "c = (p @ ''@'' @ g) @ ?ext"
        unfolding correct_email_truncated[OF x tbl] by simp
      have ext: "?ext = ''.com'' \<or> ?ext = ''.pt''" by (rule first_known_extension_cases)
      have "normal ((p @ ''@'' @ g) @ ''.'' @ x)" using n unfolding x(1) by simp
      then have nc: "normal c" unfolding c
        by (rule normal_after_rule_b) (simp, rule ext)
      have l: "last c = CHR ''m'' \<or> last c = CHR ''t''"
        unfolding c using ext by (cases "?ext = ''.com''") simp_all
      show ?thesis
        by (rule correct_email_unchanged[OF nc no_rule_by_last[OF l]])
    qed
  qed
qed

theorem correct_email_idempotent_witness:
  "correct_email EmailProcessor_init (Str ''ana@sapo.'') =
     Inr ((''ana@sapo.pt'', True),
          EmailProcessor_init\<lparr>corrections_log := [(''ana@sapo.'', ''ana@sapo.pt'')]\<rparr>) \<and>
   correct_email (EmailProcessor_init\<lparr>corrections_log := [(''ana@sapo.'', ''ana@sapo.pt'')]\<rparr>)
       (Str ''ana@sapo.pt'') =
     Inr ((''ana@sapo.pt'', False),
          EmailProcessor_init\<lparr>corrections_log := [(''ana@sapo.'', ''ana@sapo.pt'')]\<rparr>)"
proof -
  have t: "common_domains EmailProcessor_init = DOMINIOS_CONHECIDOS"
    by (simp add: EmailProcessor_init_def)
  have h: "correct_email EmailProcessor_init (Str ''ana@sapo.'') =
     Inr ((''ana@sapo.pt'', True),
          EmailProcessor_init\<lparr>corrections_log := [(''ana@sapo.'', ''ana@sapo.pt'')]\<rparr>)"
    by code_simp
  from h correct_email_idempotent[OF t h] show ?thesis by (rule conjI)
qed

text \<open>
  C10. The pair returned by \<open>correct_email\<close> (or the error) is the same in two states
  of the processor that differ in their logs only; a call leaves the table alone and
  appends exactly one entry to the log, for the corrected address, when it reports a
  change, and none otherwise.
\<close>

theorem correct_email_log_independent:
  "(common_domains s1 = common_domains s2 \<longrightarrow>
      map_sum id fst (correct_email s1 v) = map_sum id fst (correct_email s2 v)) \<and>
   (correct_email s v = Inr ((c, b), s') \<longrightarrow>
      common_domains s' = common_domains s \<and>
      (\<exists>original. corrections_log s' =
         corrections_log s @ (if b then [(original, c)] else [])))"
proof (intro conjI impI)
  assume "common_domains s1 = common_domains s2"
  then show "map_sum id fst (correct_email s1 v) = map_sum id fst (correct_email s2 v)"
    by (simp add: correct_email_def register_correction_def Let_def
        split: pyval.splits option.splits sum.splits prod.splits)
next
  assume h: "correct_email s v = Inr ((c, b), s')"
  then show "common_domains s' = common_domains s"
    by (auto simp: correct_email_def register_correction_def Let_def
        split: pyval.splits option.splits sum.splits prod.splits if_splits)
  from h show "\<exists>original. corrections_log s' =
         corrections_log s @ (if b then [(original, c)] else [])"
    by (auto simp: correct_email_def register_correction_def Let_def
        split: pyval.splits option.splits sum.splits prod.splits if_splits)
qed

theorem correct_email_log_independent_witness:
  "map_sum id fst (correct_email EmailProcessor_init (Str ''ana@sapo.'')) =
   map_sum id fst (correct_email (EmailProcessor_init\<lparr>corrections_log := [(''x'', ''y'')]\<rparr>)
                      (Str ''ana@sapo.'')) \<and>
   correct_email (EmailProcessor_init\<lparr>corrections_log := [(''x'', ''y'')]\<rparr>) (Str ''ana@sapo.'') =
     Inr ((''ana@sapo.pt'', True),
          EmailProcessor_init\<lparr>corrections_log := [(''x'', ''y''), (''ana@sapo.'', ''ana@sapo.pt'')]\<rparr>) \<and>
   corrections_log (EmailProcessor_init\<lparr>corrections_log :=
        [(''x'', ''y''), (''ana@sapo.'', ''ana@sapo.pt'')]\<rparr>) =
     corrections_log (EmailProcessor_init\<lparr>corrections_log := [(''x'', ''y'')]\<rparr>) @
       [(''ana@sapo.'', ''ana@sapo.pt'')]"
proof -
  let ?s2 = "EmailProcessor_init\<lparr>corrections_log := [(''x'', ''y'')]\<rparr>"
  let ?s3 = "EmailProcessor_init\<lparr>corrections_log :=
        [(''x'', ''y''), (''ana@sapo.'', ''ana@sapo.pt'')]\<rparr>"
  have t: "common_domains EmailProcessor_init = common_domains ?s2" by simp
  have h: "correct_email ?s2 (Str ''ana@sapo.'') = Inr ((''ana@sapo.pt'', True), ?s3)"
    by code_simp
  note th = correct_email_log_independent[of EmailProcessor_init ?s2 "Str ''ana@sapo.''"
      ?s2 "''ana@sapo.pt''" True ?s3]
  from th t have a: "map_sum id fst (correct_email EmailProcessor_init (Str ''ana@sapo.'')) =
      map_sum id fst (correct_email ?s2 (Str ''ana@sapo.''))" by blast
  have c: "corrections_log ?s3 = corrections_log ?s2 @ [(''ana@sapo.'', ''ana@sapo.pt'')]" by simp
  from a h c show ?thesis by (intro conjI)
qed

section \<open>Claims about the extractor and the report\<close>

text \<open>
  C7. A run fails with one error that wraps the cause when opening the file raises,
  or when the extraction of the text of a page raises (the pages before it having
  been read); it fails with the error of the empty table, and produces no report, when
  the extraction ends with no row. \<open>correct_email\<close>, with the table of the source,
  returns a pair for every input, the empty string and no change for an input that is
  not a string or is blank; \<open>validate_email\<close> returns a truth value, false for an input
  that is not a string.
\<close>

theorem fatal_errors_and_best_effort:
  "processar_pdf_para_emails env (OpenRaises msg) = Inl (ErroProcessarPDF (PdfError msg)) \<and>
   ((\<forall>p\<in>set pre. has_text p) \<longrightarrow>
      processar_pdf_para_emails env (Pages (pre @ ExtractRaises msg # post)) =
        Inl (ErroProcessarPDF (PdfError msg))) \<and>
   (extrair_emails_pdf EmailProcessor_init pdf = Inr (ep, []) \<longrightarrow>
      processar_pdf_para_emails env pdf = Inl NenhumDado) \<and>
   (common_domains self = DOMINIOS_CONHECIDOS \<longrightarrow>
      (\<exists>c b self'. correct_email self v = Inr ((c, b), self'))) \<and>
   correct_email self NotStr = Inr (([], False), self) \<and>
   (strip e = [] \<longrightarrow> correct_email self (Str e) = Inr (([], False), self)) \<and>
   validate_email NotStr = False"
proof (intro conjI impI)
  show "processar_pdf_para_emails env (OpenRaises msg) = Inl (ErroProcessarPDF (PdfError msg))"
    by (simp add: processar_pdf_para_emails_def extrair_emails_pdf_def)
next
  assume pre: "\<forall>p\<in>set pre. has_text p"
  let ?st0 = "\<lparr>email_processor = EmailProcessor_init, status_atual = INDEFINIDO, dados = []\<rparr>"
  have "common_domains (email_processor ?st0) = DOMINIOS_CONHECIDOS"
    by (simp add: EmailProcessor_init_def)
  from process_pages_std_ok[OF this pre] obtain st1 where
    "process_pages ?st0 pre = Inr st1" by blast
  then have "process_pages ?st0 (pre @ ExtractRaises msg # post) = Inl (PdfError msg)"
    by (simp add: process_pages_append)
  then show "processar_pdf_para_emails env (Pages (pre @ ExtractRaises msg # post)) =
        Inl (ErroProcessarPDF (PdfError msg))"
    by (simp add: processar_pdf_para_emails_def extrair_emails_pdf_def)
next
  assume "extrair_emails_pdf EmailProcessor_init pdf = Inr (ep, [])"
  then show "processar_pdf_para_emails env pdf = Inl NenhumDado"
    by (simp add: processar_pdf_para_emails_def)
next
  assume "common_domains self = DOMINIOS_CONHECIDOS"
  from correct_email_std_ok[OF this, of v]
  show "\<exists>c b self'. correct_email self v = Inr ((c, b), self')" by blast
next
  show "correct_email self NotStr = Inr (([], False), self)"
    by (simp add: correct_email_def)
next
  assume "strip e = []"
  then show "correct_email self (Str e) = Inr (([], False), self)"
    by (rule correct_email_blank)
next
  show "validate_email NotStr = False"
    by (simp add: validate_email_def)
qed

theorem fatal_errors_and_best_effort_witness:
  "processar_pdf_para_emails \<lparr>ano_corrente = 2026, gerado_em = [], cobertura_1f = (\<lambda>v n. [])\<rparr>
      (Pages ([ExtractText (Some ''SP.A.1/21 a@b.co''), ExtractText None]
              @ ExtractRaises ''unreadable'' # [ExtractText (Some ''SP.B.2/20'')])) =
     Inl (ErroProcessarPDF (PdfError ''unreadable'')) \<and>
   extrair_emails_pdf EmailProcessor_init (Pages [ExtractText (Some ''no donor here'')]) =
     Inr (EmailProcessor_init, []) \<and>
   processar_pdf_para_emails \<lparr>ano_corrente = 2026, gerado_em = [], cobertura_1f = (\<lambda>v n. [])\<rparr>
      (Pages [ExtractText (Some ''no donor here'')]) = Inl NenhumDado \<and>
   strip [CHR '' '', CHR 0x09] = [] \<and>
   correct_email EmailProcessor_init (Str [CHR '' '', CHR 0x09]) =
     Inr (([], False), EmailProcessor_init)"
proof -
  let ?env = "\<lparr>ano_corrente = 2026, gerado_em = [], cobertura_1f = (\<lambda>v n. [])\<rparr>"
  let ?pre = "[ExtractText (Some ''SP.A.1/21 a@b.co''), ExtractText None]"
  note th = fatal_errors_and_best_effort[of ?env "''unreadable''" ?pre
      "[ExtractText (Some ''SP.B.2/20'')]" "Pages [ExtractText (Some ''no donor here'')]"
      EmailProcessor_init EmailProcessor_init "Str []" "[CHR '' '', CHR 0x09]"]
  have p: "\<forall>p\<in>set ?pre. has_text p" by (simp add: has_text_def)
  have x: "extrair_emails_pdf EmailProcessor_init (Pages [ExtractText (Some ''no donor here'')]) =
     Inr (EmailProcessor_init, [])"
    by code_simp
  have s: "strip [CHR '' '', CHR 0x09] = []" by (simp add: strip_def is_space_def)
  from th p have 1: "processar_pdf_para_emails ?env
      (Pages (?pre @ ExtractRaises ''unreadable'' # [ExtractText (Some ''SP.B.2/20'')])) =
     Inl (ErroProcessarPDF (PdfError ''unreadable''))" by blast
  from th x have 2: "processar_pdf_para_emails ?env
      (Pages [ExtractText (Some ''no donor here'')]) = Inl NenhumDado" by blast
  from th s have 3: "correct_email EmailProcessor_init (Str [CHR '' '', CHR 0x09]) =
     Inr (([], False), EmailProcessor_init)" by blast
  from 1 x 2 s 3 show ?thesis by (intro conjI)
qed














end
